theory Spec2Isabelle
  imports Main "HOL-Library.Sublist"
begin

section \<open>Python values, strings and exceptions\<close>

text \<open>
  The embedding follows \<^verbatim>\<open>src/weboutlook/scraper.py\<close>. Python strings are byte
  strings (\<open>string\<close>), dictionaries are maps, exceptions are values of \<open>error\<close> and
  every method of \<^verbatim>\<open>OutlookWebScraper\<close> is a function from the scraper's state to
  a result and the new state.
\<close>

datatype error =
    InvalidLogin
  | RetrievalError string
  | NameError string
  | IndexError
  | StopIteration
  | KeyError string
  | TypeError
  | AttributeError
  | BrowserError string

text \<open>A hyperlink of a page as mechanize reports it: \<^verbatim>\<open>link.url\<close>, \<^verbatim>\<open>link.text\<close>
  (\<^verbatim>\<open>None\<close> for a tag that carries no text) and \<^verbatim>\<open>link.base_url\<close>.\<close>

record link =
  link_url :: string
  link_text :: "string option"
  link_base_url :: "string option"

text \<open>A response of the browser: what \<^verbatim>\<open>response().read()\<close> gives and what
  \<^verbatim>\<open>links()\<close> iterates over.\<close>

record response =
  response_body :: string
  response_links :: "link list"

text \<open>The values that the cache helpers store and return.\<close>

datatype pyval =
    PNone
  | PBool bool
  | PStr string
  | PList "string list"
  | PResponse response

text \<open>Python's truth test (\<^verbatim>\<open>if x:\<close>).\<close>

fun truthy :: "pyval \<Rightarrow> bool" where
  "truthy PNone = False"
| "truthy (PBool b) = b"
| "truthy (PStr s) = (s \<noteq> [])"
| "truthy (PList xs) = (xs \<noteq> [])"
| "truthy (PResponse r) = True"

text \<open>A keyword argument that defaults to \<^verbatim>\<open>None\<close> and is tested with \<^verbatim>\<open>if name:\<close>:
  the string when the test succeeds.\<close>

fun truthy_name :: "string option \<Rightarrow> string option" where
  "truthy_name None = None"
| "truthy_name (Some n) = (if n = [] then None else Some n)"

text \<open>\<^verbatim>\<open>sub in s\<close> on strings.\<close>

fun contains :: "string \<Rightarrow> string \<Rightarrow> bool" where
  "contains sub [] = (sub = [])"
| "contains sub (c # cs) = (prefix sub (c # cs) \<or> contains sub cs)"

text \<open>\<^verbatim>\<open>s.replace(old, new)\<close>: every non-overlapping occurrence, from the left.\<close>

function py_replace :: "string \<Rightarrow> string \<Rightarrow> string \<Rightarrow> string" where
  "py_replace old new [] = (if old = [] then new else [])"
| "py_replace old new (c # cs) =
     (if old = [] then new @ c # py_replace old new cs
      else if prefix old (c # cs) then new @ py_replace old new (drop (length old) (c # cs))
      else c # py_replace old new cs)"
  by pat_completeness auto
termination
  by (relation "measure (\<lambda>(old, new, s). length s)") auto

text \<open>Iterating over a file-like object yields its lines, each with its newline.\<close>

fun py_lines :: "string \<Rightarrow> string list" where
  "py_lines [] = []"
| "py_lines (c # cs) =
     (if c = CHR 0x0A then [c] # py_lines cs
      else (case py_lines cs of [] \<Rightarrow> [[c]] | l # ls \<Rightarrow> (c # l) # ls))"

text \<open>\<^verbatim>\<open>for id in cache\<close>: the items the loop visits, or the \<^verbatim>\<open>TypeError\<close> of a value
  that is not iterable.\<close>

fun py_iter :: "pyval \<Rightarrow> error + string list" where
  "py_iter (PList xs) = Inr xs"
| "py_iter (PStr s) = Inr (map (\<lambda>c. [c]) s)"
| "py_iter (PResponse r) = Inr (py_lines (response_body r))"
| "py_iter PNone = Inl TypeError"
| "py_iter (PBool b) = Inl TypeError"

text \<open>The library functions the module calls (\<^verbatim>\<open>urlparse.urljoin\<close>, \<^verbatim>\<open>urllib.quote\<close>,
  \<^verbatim>\<open>urllib.urlencode\<close>) are parameters of the model.\<close>

record pylib =
  urljoin :: "string \<Rightarrow> string \<Rightarrow> string"
  quote :: "string \<Rightarrow> string"
  urlencode :: "(string \<times> string) list \<Rightarrow> string"

section \<open>The browser collaborator\<close>

text \<open>
  \<^verbatim>\<open>mechanize.Browser\<close> is outside the repository. It is modelled as a deterministic
  stub: every method call is appended to the log \<open>calls\<close>; \<open>raises\<close> decides from the log
  whether the call just made raises, and \<open>serves\<close> gives the page that an \<^verbatim>\<open>open\<close> or a
  \<^verbatim>\<open>submit\<close> loads. The log counts the requests an operation makes.
\<close>

datatype call =
    AddPassword string string string
  | Open string "string option"
  | SelectForm string
  | SetItem string string
  | Submit

record browser =
  raises :: "call list \<Rightarrow> error option"
  serves :: "call list \<Rightarrow> response"
  calls :: "call list"
  page :: "response option"
  addheaders :: "(string \<times> string) list"

text \<open>A call that loads no page (\<^verbatim>\<open>add_password\<close>, \<^verbatim>\<open>select_form\<close>,
  \<^verbatim>\<open>browser[name] = value\<close>).\<close>

definition br_call :: "call \<Rightarrow> browser \<Rightarrow> (error + unit) \<times> browser" where
  "br_call c b =
     (let b' = b\<lparr>calls := calls b @ [c]\<rparr> in
      case raises b (calls b') of
        Some e \<Rightarrow> (Inl e, b')
      | None \<Rightarrow> (Inr (), b'))"

text \<open>A call that loads a page (\<^verbatim>\<open>open\<close>, \<^verbatim>\<open>submit\<close>) and returns the response.\<close>

definition br_load :: "call \<Rightarrow> browser \<Rightarrow> (error + response) \<times> browser" where
  "br_load c b =
     (let b' = b\<lparr>calls := calls b @ [c]\<rparr> in
      case raises b (calls b') of
        Some e \<Rightarrow> (Inl e, b')
      | None \<Rightarrow> (let r = serves b (calls b') in (Inr r, b'\<lparr>page := Some r\<rparr>)))"

text \<open>\<^verbatim>\<open>[link.url for link in self.browser.links() if '.EML' in link.url]\<close>\<close>

definition eml_urls :: "link list \<Rightarrow> string list" where
  "eml_urls ls = map link_url (filter (\<lambda>l. contains ''.EML'' (link_url l)) ls)"

text \<open>\<^verbatim>\<open>browser.links()\<close> of the page being viewed; mechanize raises when there is
  none.\<close>

definition br_links :: "browser \<Rightarrow> error + link list" where
  "br_links b =
     (case page b of
        None \<Rightarrow> Inl (BrowserError ''not viewing HTML'')
      | Some r \<Rightarrow> Inr (response_links r))"

text \<open>\<^verbatim>\<open>[link.url for link in self.browser.links() if 'Next Page' in link.text]\<close>:
  \<^verbatim>\<open>in\<close> raises \<^verbatim>\<open>TypeError\<close> on a link whose text is \<^verbatim>\<open>None\<close>.\<close>

fun next_page_urls :: "link list \<Rightarrow> error + string list" where
  "next_page_urls [] = Inr []"
| "next_page_urls (l # ls) =
     (case link_text l of
        None \<Rightarrow> Inl TypeError
      | Some t \<Rightarrow>
          (case next_page_urls ls of
             Inl e \<Rightarrow> Inl e
           | Inr us \<Rightarrow> Inr (if contains ''Next Page'' t then link_url l # us else us)))"

section \<open>The scraper's state and its methods\<close>

record scraper =
  domain :: string
  username :: string
  password :: string
  is_logged_in :: bool
  base_href :: "string option"
  browser :: browser
  folder_cache :: "string \<rightharpoonup> pyval"
  message_cache :: "string \<rightharpoonup> pyval"

text \<open>\<^verbatim>\<open>__init__\<close> (lines 91-99); the fresh \<^verbatim>\<open>Browser()\<close> is the stub \<open>b\<close>.\<close>

definition init :: "browser \<Rightarrow> string \<Rightarrow> string \<Rightarrow> string \<Rightarrow> scraper" where
  "init b d u p =
     \<lparr>domain = d, username = u, password = p, is_logged_in = False, base_href = None,
      browser = b, folder_cache = Map.empty, message_cache = Map.empty\<rparr>"

text \<open>A method is a function from the state to an exception or a value, and the state
  it leaves.\<close>

type_synonym 'a action = "scraper \<Rightarrow> (error + 'a) \<times> scraper"

definition return :: "'a \<Rightarrow> 'a action" where
  "return x s = (Inr x, s)"

definition raise :: "error \<Rightarrow> 'a action" where
  "raise e s = (Inl e, s)"

definition and_then :: "'a action \<Rightarrow> ('a \<Rightarrow> 'b action) \<Rightarrow> 'b action" where
  "and_then m f s = (case m s of (Inl e, s') \<Rightarrow> (Inl e, s') | (Inr x, s') \<Rightarrow> f x s')"

definition browser_call :: "call \<Rightarrow> unit action" where
  "browser_call c s = (case br_call c (browser s) of (r, b') \<Rightarrow> (r, s\<lparr>browser := b'\<rparr>))"

definition browser_load :: "call \<Rightarrow> response action" where
  "browser_load c s = (case br_load c (browser s) of (r, b') \<Rightarrow> (r, s\<lparr>browser := b'\<rparr>))"

text \<open>\<^verbatim>\<open>self.browser.response().read()\<close>: \<^verbatim>\<open>response()\<close> is \<^verbatim>\<open>None\<close> before any page is
  loaded.\<close>

definition read_body :: "string action" where
  "read_body s =
     (case page (browser s) of
        None \<Rightarrow> (Inl AttributeError, s)
      | Some r \<Rightarrow> (Inr (response_body r), s))"

text \<open>\<^verbatim>\<open>self.browser.links()\<close> of the page being viewed.\<close>

definition current_links :: "link list action" where
  "current_links s = (br_links (browser s), s)"

text \<open>
  The methods call the cache helpers as \<^verbatim>\<open>find_in_cache(...)\<close>, \<^verbatim>\<open>add_to_cache(...)\<close>
  and \<^verbatim>\<open>remove_from_cache(...)\<close>, without \<^verbatim>\<open>self.\<close>. Python resolves such a name among
  the module's globals and the builtins; the helpers are attributes of the class only,
  and the module binds no global of these names, so evaluating the name raises
  \<^verbatim>\<open>NameError\<close> before anything is called. The code that follows such a call in the
  source is kept as the continuation.
\<close>

definition global_name :: "string \<Rightarrow> 'a action" where
  "global_name n = raise (NameError n)"

subsection \<open>The cache helpers (lines 101-143)\<close>

definition add_to_cache :: "string option \<Rightarrow> pyval \<Rightarrow> string option \<Rightarrow> pyval \<Rightarrow> pyval action" where
  "add_to_cache folder_name message_urls msgid payload s =
     (case truthy_name folder_name of
        Some n \<Rightarrow> (Inr message_urls, s\<lparr>folder_cache := (folder_cache s)(n \<mapsto> message_urls)\<rparr>)
      | None \<Rightarrow>
          (case truthy_name msgid of
             Some i \<Rightarrow> (Inr payload, s\<lparr>message_cache := (message_cache s)(i \<mapsto> payload)\<rparr>)
           | None \<Rightarrow> (Inr PNone, s)))"

text \<open>\<^verbatim>\<open>find_in_cache\<close> reads only. The \<^verbatim>\<open>else\<close> of line 117 belongs to
  \<^verbatim>\<open>if folder_name:\<close>, so a folder name that is not cached falls off the end of the
  method (\<^verbatim>\<open>None\<close>), and \<^verbatim>\<open>False\<close> is returned when no folder name is given.\<close>

definition find_in_cache :: "scraper \<Rightarrow> string option \<Rightarrow> string option \<Rightarrow> pyval" where
  "find_in_cache s folder_name msgid =
     (case (case truthy_name msgid of None \<Rightarrow> None | Some i \<Rightarrow> message_cache s i) of
        Some payload \<Rightarrow> payload
      | None \<Rightarrow>
          (case truthy_name folder_name of
             Some n \<Rightarrow> (case folder_cache s n of Some urls \<Rightarrow> urls | None \<Rightarrow> PNone)
           | None \<Rightarrow> PBool False))"

text \<open>\<^verbatim>\<open>del self.message_cache[id]\<close> and \<^verbatim>\<open>del self.folder_cache[name]\<close> raise
  \<^verbatim>\<open>KeyError\<close> on a missing key.\<close>

definition del_message :: "string \<Rightarrow> unit action" where
  "del_message i s =
     (case message_cache s i of
        None \<Rightarrow> (Inl (KeyError i), s)
      | Some v \<Rightarrow> (Inr (), s\<lparr>message_cache := (message_cache s)(i := None)\<rparr>))"

definition del_folder :: "string \<Rightarrow> unit action" where
  "del_folder n s =
     (case folder_cache s n of
        None \<Rightarrow> (Inl (KeyError n), s)
      | Some v \<Rightarrow> (Inr (), s\<lparr>folder_cache := (folder_cache s)(n := None)\<rparr>))"

fun del_messages :: "string list \<Rightarrow> unit action" where
  "del_messages [] = return ()"
| "del_messages (i # ids) = and_then (del_message i) (\<lambda>u. del_messages ids)"

text \<open>\<^verbatim>\<open>remove_from_cache\<close> (lines 120-138). The first part gives \<open>Some True\<close> when
  line 126 returns, and \<open>None\<close> when control goes on to line 128.\<close>

definition remove_from_cache :: "string option \<Rightarrow> string option \<Rightarrow> pyval action" where
  "remove_from_cache folder_name msgid =
     and_then
       (case truthy_name msgid of
          None \<Rightarrow> return None
        | Some i \<Rightarrow>
            and_then (global_name ''find_in_cache'') (\<lambda>cache.
              if truthy cache then
                and_then (del_message i) (\<lambda>u.
                  if truthy_name folder_name = None then return (Some True) else return None)
              else return None))
       (\<lambda>early.
          case early of
            Some r \<Rightarrow> return (PBool r)
          | None \<Rightarrow>
              (case truthy_name folder_name of
                 Some n \<Rightarrow>
                   and_then (global_name ''find_in_cache'') (\<lambda>cache.
                     if truthy cache then
                       and_then (del_folder n) (\<lambda>u.
                         case py_iter cache of
                           Inl e \<Rightarrow> raise e
                         | Inr ids \<Rightarrow> and_then (del_messages ids) (\<lambda>u. return (PBool True)))
                     else return (PBool False))
               | None \<Rightarrow> return (PBool False)))"

definition flush_cache :: "pyval action" where
  "flush_cache s = (Inr (PBool True), s\<lparr>folder_cache := Map.empty, message_cache := Map.empty\<rparr>)"

subsection \<open>Logging in (lines 145-160)\<close>

definition login :: "pylib \<Rightarrow> pyval action" where
  "login lib s =
     (let destination = urljoin lib (domain s) ''exchange/'' in
      and_then (browser_call (AddPassword destination (username s) (password s))) (\<lambda>u.
      and_then (browser_load (Open destination None)) (\<lambda>r.
      and_then (browser_call (SelectForm ''logonForm'')) (\<lambda>u.
      and_then (browser_call (SetItem ''username'' (username s))) (\<lambda>u.
      and_then (browser_call (SetItem ''password'' (password s))) (\<lambda>u.
      and_then (browser_load Submit) (\<lambda>r.
      and_then read_body (\<lambda>body.
        if contains ''You could not be logged on to Outlook Web Access'' body
        then raise InvalidLogin
        else
          and_then current_links (\<lambda>ls.
            case ls of
              [] \<Rightarrow> raise StopIteration
            | m # rest \<Rightarrow>
                (case truthy_name (link_base_url m) of
                   None \<Rightarrow>
                     raise (RetrievalError
                       ''Couldn't find <base href> on page after logging in.'')
                 | Some h \<Rightarrow>
                     (\<lambda>s'. (Inr PNone, s'\<lparr>base_href := Some h, is_logged_in := True\<rparr>)))))))))))
      s)"

text \<open>\<^verbatim>\<open>if not self.is_logged_in: self.login()\<close> (lines 186, 214 and 226).\<close>

definition ensure_logged_in :: "pylib \<Rightarrow> unit action" where
  "ensure_logged_in lib s =
     (if \<not> is_logged_in s then and_then (login lib) (\<lambda>r. return ()) s else return () s)"

text \<open>\<^verbatim>\<open>self.base_href + x\<close>: \<^verbatim>\<open>None + str\<close> is a \<^verbatim>\<open>TypeError\<close>.\<close>

definition base_href_plus :: "string \<Rightarrow> string action" where
  "base_href_plus x s =
     (case base_href s of
        None \<Rightarrow> (Inl TypeError, s)
      | Some h \<Rightarrow> (Inr (h @ x), s))"

subsection \<open>Listing a folder (lines 173-206)\<close>

text \<open>Lines 181-184: the cache is consulted unless \<^verbatim>\<open>refresh\<close> is set. \<open>Some\<close> is the
  return of line 184.\<close>

definition cached_folder :: "string \<Rightarrow> bool \<Rightarrow> pyval option action" where
  "cached_folder folder_name refresh =
     (if \<not> refresh then
        and_then (global_name ''find_in_cache'') (\<lambda>message_urls.
          if truthy message_urls then return (Some message_urls) else return None)
      else return None)"

text \<open>Lines 186-191: the first page's message urls and its body.\<close>

definition first_page :: "pylib \<Rightarrow> string \<Rightarrow> (string list \<times> string) action" where
  "first_page lib folder_name =
     and_then (ensure_logged_in lib) (\<lambda>u.
     and_then (base_href_plus (quote lib folder_name @ ''/?Cmd=contents'')) (\<lambda>url.
     and_then (browser_load (Open url None)) (\<lambda>r.
     and_then current_links (\<lambda>ls.
     and_then read_body (\<lambda>body.
       return (eml_urls ls, body))))))"

text \<open>Line 200: the urls of the page's message links with \<^verbatim>\<open>self.base_href\<close> removed;
  \<^verbatim>\<open>replace\<close> is evaluated once per message link.\<close>

definition stripped_eml_urls :: "string option \<Rightarrow> link list \<Rightarrow> error + string list" where
  "stripped_eml_urls base ls =
     (let us = eml_urls ls in
      if us = [] then Inr []
      else (case base of
              None \<Rightarrow> Inl TypeError
            | Some h \<Rightarrow> Inr (map (py_replace h []) us)))"

text \<open>Lines 198-200, the request of one iteration: the first \<^verbatim>\<open>Next Page\<close> link is
  opened (\<^verbatim>\<open>[...][0]\<close> raises \<^verbatim>\<open>IndexError\<close> when there is none) and the message urls
  of the page it loads are extracted.\<close>

definition next_page :: "browser \<Rightarrow> string option \<Rightarrow> (error + string list) \<times> browser" where
  "next_page b base =
     (case br_links b of
        Inl e \<Rightarrow> (Inl e, b)
      | Inr ls \<Rightarrow>
          (case next_page_urls ls of
             Inl e \<Rightarrow> (Inl e, b)
           | Inr [] \<Rightarrow> (Inl IndexError, b)
           | Inr (next_url # others) \<Rightarrow>
               (case br_load (Open next_url None) b of
                  (Inl e, b') \<Rightarrow> (Inl e, b')
                | (Inr r, b') \<Rightarrow>
                    (case br_links b' of
                       Inl e \<Rightarrow> (Inl e, b')
                     | Inr ls' \<Rightarrow> (stripped_eml_urls base ls', b')))))"

text \<open>
  The loop of lines 197-204, on the browser and the loop's variables. One call is one
  iteration; \<open>None\<close> is a loop that never ends. \<^verbatim>\<open>message_urls.extend(murls)\<close> runs in
  every iteration, also in the one that clears \<^verbatim>\<open>flag\<close>.
\<close>

partial_function (option) paginate ::
  "browser \<Rightarrow> string option \<Rightarrow> string list \<Rightarrow> string list \<Rightarrow>
     ((error + string list) \<times> browser) option" where
  "paginate b base last_message_urls message_urls =
     (case next_page b base of
        (Inl e, b') \<Rightarrow> Some (Inl e, b')
      | (Inr murls, b') \<Rightarrow>
          (let flag = (murls \<noteq> last_message_urls);
               last_message_urls' = murls;
               message_urls' = message_urls @ murls
           in if flag
              then paginate b' base last_message_urls' message_urls'
              else Some (Inr message_urls', b')))"

text \<open>The states in which the loop begins an iteration. A state is the browser with the
  values of \<^verbatim>\<open>last_message_urls\<close> and \<^verbatim>\<open>message_urls\<close>; \<open>iterates base st st'\<close> says that
  the loop entered in \<open>st\<close> is, after some iterations that left \<^verbatim>\<open>flag\<close> set, about to
  run an iteration in \<open>st'\<close>.\<close>

inductive iterates ::
  "string option \<Rightarrow> browser \<times> string list \<times> string list \<Rightarrow>
     browser \<times> string list \<times> string list \<Rightarrow> bool" for base where
  iterates_start: "iterates base st st"
| iterates_step:
    "iterates base st (b, last_message_urls, message_urls) \<Longrightarrow>
     next_page b base = (Inr murls, b') \<Longrightarrow>
     murls \<noteq> last_message_urls \<Longrightarrow>
     iterates base st (b', murls, message_urls @ murls)"

definition get_folder ::
  "pylib \<Rightarrow> string \<Rightarrow> bool \<Rightarrow> scraper \<Rightarrow> ((error + pyval) \<times> scraper) option" where
  "get_folder lib folder_name refresh s =
     (case cached_folder folder_name refresh s of
        (Inl e, s1) \<Rightarrow> Some (Inl e, s1)
      | (Inr (Some message_urls), s1) \<Rightarrow> Some (Inr message_urls, s1)
      | (Inr None, s1) \<Rightarrow>
          (case first_page lib folder_name s1 of
             (Inl e, s2) \<Rightarrow> Some (Inl e, s2)
           | (Inr (message_urls, body), s2) \<Rightarrow>
               if contains ''&nbsp;of&nbsp;1'' body then
                 Some (and_then (global_name ''add_to_cache'')
                         (\<lambda>c :: pyval. return (PList message_urls)) s2)
               else
                 (case paginate (browser s2) (base_href s2) message_urls message_urls of
                    None \<Rightarrow> None
                  | Some (Inl e, b) \<Rightarrow> Some (Inl e, s2\<lparr>browser := b\<rparr>)
                  | Some (Inr urls, b) \<Rightarrow>
                      Some (and_then (global_name ''add_to_cache'')
                              (\<lambda>c :: pyval. return (PList urls)) (s2\<lparr>browser := b\<rparr>)))))"

text \<open>\<^verbatim>\<open>inbox\<close> (lines 162-171).\<close>

definition inbox :: "pylib \<Rightarrow> bool \<Rightarrow> scraper \<Rightarrow> ((error + pyval) \<times> scraper) option" where
  "inbox lib refresh =
     (if refresh then get_folder lib ''Inbox'' True else get_folder lib ''Inbox'' False)"

subsection \<open>Messages (lines 208-235)\<close>

definition get_message :: "pylib \<Rightarrow> string \<Rightarrow> pyval action" where
  "get_message lib msgid =
     and_then (global_name ''find_in_cache'') (\<lambda>payload.
       if truthy payload then return payload
       else
         and_then (ensure_logged_in lib) (\<lambda>u.
         and_then (\<lambda>s. (Inr (), s\<lparr>browser := (browser s)\<lparr>addheaders := [(''Translate'', ''f'')]\<rparr>\<rparr>)) (\<lambda>u.
         and_then (base_href_plus (msgid @ ''?Cmd=body'')) (\<lambda>url.
         and_then (browser_load (Open url None)) (\<lambda>payload.
         and_then (global_name ''add_to_cache'') (\<lambda>c :: pyval.
           return (PResponse payload)))))))"

definition delete_message :: "pylib \<Rightarrow> string \<Rightarrow> pyval action" where
  "delete_message lib msgid0 =
     and_then (ensure_logged_in lib) (\<lambda>u.
       let msgid = py_replace ''?Cmd=open'' [] msgid0 in
       and_then (base_href_plus msgid) (\<lambda>url.
       and_then (browser_load
                   (Open url (Some (urlencode lib
                      [(''MsgId'', msgid), (''Cmd'', ''delete''), (''ReadForm'', ''1'')])))) (\<lambda>delete.
       and_then (global_name ''remove_from_cache'') (\<lambda>c :: pyval.
         return (PResponse delete)))))"

section \<open>Reachable states\<close>

text \<open>The states a scraper can be in: the constructor's, and those the public methods
  leave, whether they return or raise.\<close>

inductive reachable :: "pylib \<Rightarrow> scraper \<Rightarrow> bool" for lib where
  reach_init: "reachable lib (init b d u p)"
| reach_add_to_cache:
    "reachable lib s \<Longrightarrow> add_to_cache folder_name message_urls msgid payload s = (r, s') \<Longrightarrow>
     reachable lib s'"
| reach_remove_from_cache:
    "reachable lib s \<Longrightarrow> remove_from_cache folder_name msgid s = (r, s') \<Longrightarrow>
     reachable lib s'"
| reach_flush_cache:
    "reachable lib s \<Longrightarrow> flush_cache s = (r, s') \<Longrightarrow> reachable lib s'"
| reach_login:
    "reachable lib s \<Longrightarrow> login lib s = (r, s') \<Longrightarrow> reachable lib s'"
| reach_inbox:
    "reachable lib s \<Longrightarrow> inbox lib refresh s = Some (r, s') \<Longrightarrow> reachable lib s'"
| reach_get_folder:
    "reachable lib s \<Longrightarrow> get_folder lib folder_name refresh s = Some (r, s') \<Longrightarrow>
     reachable lib s'"
| reach_get_message:
    "reachable lib s \<Longrightarrow> get_message lib msgid' s = (r, s') \<Longrightarrow> reachable lib s'"
| reach_delete_message:
    "reachable lib s \<Longrightarrow> delete_message lib msgid' s = (r, s') \<Longrightarrow> reachable lib s'"

text \<open>The browser calls of \<^verbatim>\<open>login\<close> up to the submission of the form (lines 148-153),
  in order.\<close>

definition login_calls :: "pylib \<Rightarrow> scraper \<Rightarrow> call list" where
  "login_calls lib s =
     (let destination = urljoin lib (domain s) ''exchange/'' in
      [AddPassword destination (username s) (password s),
       Open destination None,
       SelectForm ''logonForm'',
       SetItem ''username'' (username s),
       SetItem ''password'' (password s),
       Submit])"

section \<open>A scripted collaborator for the examples\<close>

text \<open>Stand-ins for the library functions at the concrete inputs.\<close>

definition stub_lib :: pylib where
  "stub_lib =
     \<lparr>urljoin = (\<lambda>base rel. base @ ''/'' @ rel),
      quote = (\<lambda>x. x),
      urlencode = (\<lambda>kvs. concat (map (\<lambda>(k, v). k @ ''='' @ v @ ''&'') kvs))\<rparr>"

definition owa_link :: "string \<Rightarrow> string \<Rightarrow> link" where
  "owa_link u t =
     \<lparr>link_url = u, link_text = Some t, link_base_url = Some ''http://owa/exchange/u/''\<rparr>"

text \<open>
  The server: \<^verbatim>\<open>Inbox\<close> has three pages and answers the request past the last page
  (\<^verbatim>\<open>p4\<close>) with the last page again; \<^verbatim>\<open>Sent\<close> has one page; the second page of
  \<^verbatim>\<open>Drafts\<close> has no \<^verbatim>\<open>Next Page\<close> link.
\<close>

definition owa_open :: "string \<Rightarrow> response" where
  "owa_open u =
     (if u = ''http://owa/exchange/u/Inbox/?Cmd=contents'' then
        \<lparr>response_body = ''1&nbsp;of&nbsp;3'',
         response_links = [owa_link ''/Inbox/a.EML'' ''a'', owa_link ''p2'' ''Next Page'']\<rparr>
      else if u = ''p2'' then
        \<lparr>response_body = ''2&nbsp;of&nbsp;3'',
         response_links = [owa_link ''/Inbox/b.EML'' ''b'', owa_link ''p3'' ''Next Page'']\<rparr>
      else if u = ''p3'' \<or> u = ''p4'' then
        \<lparr>response_body = ''3&nbsp;of&nbsp;3'',
         response_links = [owa_link ''/Inbox/c.EML'' ''c'', owa_link ''p4'' ''Next Page'']\<rparr>
      else if u = ''http://owa/exchange/u/Sent/?Cmd=contents'' then
        \<lparr>response_body = ''1&nbsp;of&nbsp;1'',
         response_links = [owa_link ''/Sent/s.EML'' ''s'']\<rparr>
      else if u = ''http://owa/exchange/u/Drafts/?Cmd=contents'' then
        \<lparr>response_body = ''1&nbsp;of&nbsp;2'',
         response_links = [owa_link ''/Drafts/d.EML'' ''d'', owa_link ''d2'' ''Next Page'']\<rparr>
      else if u = ''d2'' then
        \<lparr>response_body = ''2&nbsp;of&nbsp;2'',
         response_links = [owa_link ''/Drafts/e.EML'' ''e'']\<rparr>
      else \<lparr>response_body = [], response_links = []\<rparr>)"

definition owa_serves :: "call list \<Rightarrow> response" where
  "owa_serves cs =
     (case rev cs of
        Open u d # before \<Rightarrow> owa_open u
      | Submit # before \<Rightarrow>
          \<lparr>response_body = ''Inbox'',
           response_links = [owa_link ''Inbox/?Cmd=contents'' ''Inbox'']\<rparr>
      | _ \<Rightarrow> \<lparr>response_body = [], response_links = []\<rparr>)"

definition owa_browser :: browser where
  "owa_browser =
     \<lparr>raises = (\<lambda>cs. None), serves = owa_serves, calls = [], page = None, addheaders = []\<rparr>"

definition owa_scraper :: scraper where
  "owa_scraper = init owa_browser ''http://owa'' ''user'' ''secret''"

text \<open>A server that rejects the credentials: the page after the form's submission
  carries the failure text.\<close>

definition rejecting_browser :: browser where
  "rejecting_browser =
     \<lparr>raises = (\<lambda>cs. None),
      serves = (\<lambda>cs. \<lparr>response_body =
                         ''<p>You could not be logged on to Outlook Web Access.</p>'',
                       response_links = [owa_link ''logon'' ''Try again'']\<rparr>),
      calls = [], page = None, addheaders = []\<rparr>"

definition rejected_scraper :: scraper where
  "rejected_scraper = init rejecting_browser ''http://owa'' ''user'' ''wrong''"

text \<open>A scraper whose user has stored a listing of \<^verbatim>\<open>Inbox\<close> and the body of its
  message through the public \<^verbatim>\<open>add_to_cache\<close>.\<close>

definition cached_scraper :: scraper where
  "cached_scraper =
     snd (add_to_cache None PNone (Some ''/Inbox/a.EML'') (PStr ''raw mail'')
       (snd (add_to_cache (Some ''Inbox'') (PList [''/Inbox/a.EML'']) None PNone owa_scraper)))"

section \<open>Properties of states that the operations keep\<close>

text \<open>A property of the state is \<open>stable\<close> when it survives the browser making
  further calls and a successful login's assignments (lines 159-160). What the scraper
  does besides is to run browser calls and to write the caches.\<close>

definition stable :: "(scraper \<Rightarrow> bool) \<Rightarrow> bool" where
  "stable P \<longleftrightarrow>
     (\<forall>s b. P s \<longrightarrow> prefix (calls (browser s)) (calls b) \<longrightarrow> P (s\<lparr>browser := b\<rparr>)) \<and>
     (\<forall>s h. P s \<longrightarrow> h \<noteq> [] \<longrightarrow> P (s\<lparr>base_href := Some h, is_logged_in := True\<rparr>))"

section \<open>Evaluation lemmas\<close>

lemmas run_defs = get_folder_def cached_folder_def first_page_def ensure_logged_in_def login_def
  and_then_def return_def raise_def global_name_def browser_call_def browser_load_def br_call_def
  br_load_def read_body_def current_links_def br_links_def base_href_plus_def eml_urls_def
  stripped_eml_urls_def next_page_def Let_def

lemmas owa_defs = stub_lib_def owa_link_def owa_open_def owa_serves_def owa_browser_def
  owa_scraper_def init_def cached_scraper_def add_to_cache_def login_calls_def

section \<open>What the unqualified helper calls do\<close>

text \<open>Every path of \<^verbatim>\<open>get_message\<close> starts with line 211, and every path of
  \<^verbatim>\<open>get_folder\<close> without \<^verbatim>\<open>refresh\<close> with line 182: both raise \<^verbatim>\<open>NameError\<close> in
  every state, before the cache or the browser is touched.\<close>

lemma get_message_raises: "get_message lib msgid s = (Inl (NameError ''find_in_cache''), s)"
  by (simp add: get_message_def and_then_def global_name_def raise_def)

lemma get_folder_without_refresh:
  "get_folder lib folder_name False s = Some (Inl (NameError ''find_in_cache''), s)"
  by (simp add: get_folder_def cached_folder_def and_then_def global_name_def raise_def)

text \<open>\<^verbatim>\<open>remove_from_cache\<close> raises as soon as one of its arguments is given.\<close>

lemma remove_from_cache_folder_name:
  "truthy_name folder_name = Some n \<Longrightarrow> truthy_name msgid = None \<Longrightarrow>
   remove_from_cache folder_name msgid s = (Inl (NameError ''find_in_cache''), s)"
  by (simp add: remove_from_cache_def and_then_def global_name_def raise_def return_def)

lemma remove_from_cache_msgid:
  "truthy_name msgid = Some i \<Longrightarrow>
   remove_from_cache folder_name msgid s = (Inl (NameError ''find_in_cache''), s)"
  by (simp add: remove_from_cache_def and_then_def global_name_def raise_def return_def)

lemma remove_from_cache_no_argument:
  "truthy_name folder_name = None \<Longrightarrow> truthy_name msgid = None \<Longrightarrow>
   remove_from_cache folder_name msgid s = (Inr (PBool False), s)"
  by (simp add: remove_from_cache_def and_then_def return_def)

text \<open>Two facts about code that the \<^verbatim>\<open>NameError\<close> keeps from running. The loop of
  lines 132-133 deletes each listed id with \<^verbatim>\<open>del\<close>, which raises \<^verbatim>\<open>KeyError\<close> on an id
  that the message cache does not hold; and the test of line 191 is a substring test, which
  the indicator of a folder of twelve pages passes as well.\<close>

lemma del_messages_missing_id:
  "message_cache s i = None \<Longrightarrow> del_messages (i # ids) s = (Inl (KeyError i), s)"
  by (simp add: del_message_def and_then_def)

lemma single_page_test_on_twelve_pages: "contains ''&nbsp;of&nbsp;1'' ''1&nbsp;of&nbsp;12''"
  by simp

section \<open>What the operations leave unchanged\<close>

lemma truthy_name_Some: "truthy_name x = Some h \<longleftrightarrow> x = Some h \<and> h \<noteq> []"
  by (cases x) auto

lemma and_then_establishes:
  "Q (snd (m s)) \<Longrightarrow> (\<And>x s1. Q s1 \<Longrightarrow> Q (snd (f x s1))) \<Longrightarrow> Q (snd (and_then m f s))"
  by (cases "m s") (auto simp: and_then_def split: sum.splits)

lemma snd_return [simp]: "snd (return x s) = s"
  by (simp add: return_def)

lemma snd_raise [simp]: "snd (raise e s) = s"
  by (simp add: raise_def)

lemma snd_global_name [simp]: "snd (global_name n s) = s"
  by (simp add: global_name_def)

lemma snd_read_body [simp]: "snd (read_body s) = s"
  by (simp add: read_body_def split: option.splits)

lemma snd_current_links [simp]: "snd (current_links s) = s"
  by (simp add: current_links_def)

lemma snd_base_href_plus [simp]: "snd (base_href_plus x s) = s"
  by (simp add: base_href_plus_def split: option.splits)

lemma stableD1:
  "stable P \<Longrightarrow> P s \<Longrightarrow> prefix (calls (browser s)) (calls b) \<Longrightarrow> P (s\<lparr>browser := b\<rparr>)"
  by (simp add: stable_def)

lemma stableD2:
  "stable P \<Longrightarrow> P s \<Longrightarrow> h \<noteq> [] \<Longrightarrow> P (s\<lparr>base_href := Some h, is_logged_in := True\<rparr>)"
  by (simp add: stable_def)

lemma br_call_calls: "calls (snd (br_call c b)) = calls b @ [c]"
  by (simp add: br_call_def Let_def split: option.splits)

lemma br_load_calls: "calls (snd (br_load c b)) = calls b @ [c]"
  by (simp add: br_load_def Let_def split: option.splits)

lemma stable_browser_call:
  assumes "stable P" and "P s"
  shows "P (snd (browser_call c s))"
proof -
  obtain r b where rb: "br_call c (browser s) = (r, b)"
    by (cases "br_call c (browser s)")
  then have "prefix (calls (browser s)) (calls b)"
    using br_call_calls [of c "browser s"] by simp
  with assms have "P (s\<lparr>browser := b\<rparr>)"
    by (rule stableD1)
  with rb show ?thesis
    by (simp add: browser_call_def)
qed

lemma stable_browser_load:
  assumes "stable P" and "P s"
  shows "P (snd (browser_load c s))"
proof -
  obtain r b where rb: "br_load c (browser s) = (r, b)"
    by (cases "br_load c (browser s)")
  then have "prefix (calls (browser s)) (calls b)"
    using br_load_calls [of c "browser s"] by simp
  with assms have "P (s\<lparr>browser := b\<rparr>)"
    by (rule stableD1)
  with rb show ?thesis
    by (simp add: browser_load_def)
qed

lemma login_establishes:
  assumes "stable P"
    and "P (snd (browser_call
           (AddPassword (urljoin lib (domain s) ''exchange/'') (username s) (password s)) s))"
  shows "P (snd (login lib s))"
  unfolding login_def Let_def
  apply (rule and_then_establishes[where Q=P])
   apply (rule assms(2))
  apply (rule and_then_establishes[where Q=P])
   apply (rule stable_browser_load[OF assms(1)], assumption)
  apply (rule and_then_establishes[where Q=P])
   apply (rule stable_browser_call[OF assms(1)], assumption)
  apply (rule and_then_establishes[where Q=P])
   apply (rule stable_browser_call[OF assms(1)], assumption)
  apply (rule and_then_establishes[where Q=P])
   apply (rule stable_browser_call[OF assms(1)], assumption)
  apply (rule and_then_establishes[where Q=P])
   apply (rule stable_browser_load[OF assms(1)], assumption)
  apply (rule and_then_establishes[where Q=P])
   apply simp
  apply (simp split: if_split)
  apply (rule impI)
  apply (rule and_then_establishes[where Q=P])
   apply simp
  apply (simp split: list.split option.split add: truthy_name_Some)
  apply (intro allI impI conjI stableD2[OF assms(1)])
   apply auto
  done

lemma stable_login:
  assumes "stable P" and "P s"
  shows "P (snd (login lib s))"
  by (rule login_establishes[OF assms(1)]) (rule stable_browser_call[OF assms])

lemma ensure_logged_in_establishes:
  assumes "stable P"
    and "is_logged_in s \<Longrightarrow> P s"
    and "\<not> is_logged_in s \<Longrightarrow> P (snd (login lib s))"
  shows "P (snd (ensure_logged_in lib s))"
proof (cases "is_logged_in s")
  case True
  with assms(2) show ?thesis by (simp add: ensure_logged_in_def)
next
  case False
  have "P (snd (and_then (login lib) (\<lambda>r. return ()) s))"
    by (rule and_then_establishes[where Q=P]) (simp_all add: assms(3) False)
  with False show ?thesis by (simp add: ensure_logged_in_def)
qed

lemma delete_message_establishes:
  assumes "stable P" and "P (snd (ensure_logged_in lib s))"
  shows "P (snd (delete_message lib msgid s))"
  unfolding delete_message_def Let_def
  apply (rule and_then_establishes[where Q=P])
   apply (rule assms(2))
  apply (rule and_then_establishes[where Q=P])
   apply simp
  apply (rule and_then_establishes[where Q=P])
   apply (rule stable_browser_load[OF assms(1)], assumption)
  apply (rule and_then_establishes[where Q=P])
   apply simp_all
  done

lemma first_page_establishes:
  assumes "stable P" and "P (snd (ensure_logged_in lib s))"
  shows "P (snd (first_page lib folder_name s))"
  unfolding first_page_def
  apply (rule and_then_establishes[where Q=P])
   apply (rule assms(2))
  apply (rule and_then_establishes[where Q=P])
   apply simp
  apply (rule and_then_establishes[where Q=P])
   apply (rule stable_browser_load[OF assms(1)], assumption)
  apply (rule and_then_establishes[where Q=P])
   apply simp
  apply (rule and_then_establishes[where Q=P])
   apply simp_all
  done

lemma br_load_result_calls: "br_load c b = (r, b') \<Longrightarrow> calls b' = calls b @ [c]"
  using br_load_calls [of c b] by simp

lemma next_page_calls: "next_page b base = (r, b') \<Longrightarrow> prefix (calls b) (calls b')"
  by (auto simp: next_page_def split: sum.splits list.splits prod.splits
      dest!: br_load_result_calls)

lemma paginate_calls:
  assumes "paginate b0 base0 last0 urls0 = Some y0"
  shows "prefix (calls b0) (calls (snd y0))"
proof (rule paginate.raw_induct
    [where P = "\<lambda>b base last_message_urls message_urls y. prefix (calls b) (calls (snd y))",
     OF _ assms], goal_cases)
  case (1 paginate b base last_message_urls message_urls y)
  obtain r b' where np: "next_page b base = (r, b')"
    by (cases "next_page b base")
  then have grow: "prefix (calls b) (calls b')"
    by (rule next_page_calls)
  show ?case
  proof (cases r)
    case (Inl e)
    with 1(2) np grow show ?thesis by auto
  next
    case (Inr murls)
    show ?thesis
    proof (cases "murls \<noteq> last_message_urls")
      case True
      with 1(2) np Inr have "paginate b' base murls (message_urls @ murls) = Some y"
        by (simp add: Let_def)
      then have "prefix (calls b') (calls (snd y))" by (rule 1(1))
      with grow show ?thesis by (rule prefix_order.trans)
    next
      case False
      with 1(2) np Inr grow show ?thesis by (auto simp: Let_def)
    qed
  qed
qed

lemma cached_folder_result:
  "cached_folder folder_name refresh s =
     (if refresh then (Inr None, s) else (Inl (NameError ''find_in_cache''), s))"
  by (simp add: cached_folder_def and_then_def global_name_def raise_def return_def)

lemma get_folder_establishes:
  assumes "stable P" and "P (snd (first_page lib folder_name s))"
    and "get_folder lib folder_name True s = Some (r, s')"
  shows "P s'"
proof -
  obtain r2 s2 where fp: "first_page lib folder_name s = (r2, s2)"
    by (cases "first_page lib folder_name s")
  with assms(2) have P2: "P s2" by simp
  show ?thesis
  proof (cases r2)
    case (Inl e)
    with assms(3) fp P2 show ?thesis
      by (simp add: get_folder_def cached_folder_result)
  next
    case (Inr mb)
    obtain message_urls body where mb: "mb = (message_urls, body)" by (cases mb)
    show ?thesis
    proof (cases "contains ''&nbsp;of&nbsp;1'' body")
      case True
      with assms(3) fp Inr mb P2 show ?thesis
        by (auto simp: get_folder_def cached_folder_result and_then_def global_name_def raise_def)
    next
      case False
      from assms(3) fp Inr mb False
      obtain r3 b where pg: "paginate (browser s2) (base_href s2) message_urls message_urls = Some (r3, b)"
        and s': "s' = s2\<lparr>browser := b\<rparr>"
        by (auto simp: get_folder_def cached_folder_result and_then_def global_name_def raise_def
            split: option.splits sum.splits)
      from paginate_calls [OF pg] have "prefix (calls (browser s2)) (calls b)" by simp
      with assms(1) P2 have "P (s2\<lparr>browser := b\<rparr>)" by (rule stableD1)
      with s' show ?thesis by simp
    qed
  qed
qed

lemma stable_ensure_logged_in:
  "stable P \<Longrightarrow> P s \<Longrightarrow> P (snd (ensure_logged_in lib s))"
  by (rule ensure_logged_in_establishes) (simp_all add: stable_login)

lemma stable_delete_message:
  "stable P \<Longrightarrow> P s \<Longrightarrow> P (snd (delete_message lib msgid s))"
  by (rule delete_message_establishes) (simp_all add: stable_ensure_logged_in)

lemma stable_first_page:
  "stable P \<Longrightarrow> P s \<Longrightarrow> P (snd (first_page lib folder_name s))"
  by (rule first_page_establishes) (simp_all add: stable_ensure_logged_in)

lemma stable_get_folder:
  assumes "stable P" and "P s" and "get_folder lib folder_name refresh s = Some (r, s')"
  shows "P s'"
proof (cases refresh)
  case False
  with assms(3) have "s' = s" by (simp add: get_folder_without_refresh)
  with assms(2) show ?thesis by simp
next
  case True
  with assms show ?thesis
    by (auto intro: get_folder_establishes stable_first_page)
qed

lemma stable_inbox:
  assumes "stable P" and "P s" and "inbox lib refresh s = Some (r, s')"
  shows "P s'"
  using assms stable_get_folder [of P s lib "''Inbox''" _ r s']
  by (auto simp: inbox_def split: if_splits)

lemma snd_remove_from_cache [simp]: "snd (remove_from_cache folder_name msgid s) = s"
proof (cases "truthy_name msgid")
  case None
  then show ?thesis
    by (cases "truthy_name folder_name")
       (simp_all add: remove_from_cache_no_argument remove_from_cache_folder_name)
next
  case (Some i)
  then show ?thesis by (simp add: remove_from_cache_msgid)
qed

lemma snd_get_message [simp]: "snd (get_message lib msgid s) = s"
  by (simp add: get_message_raises)

text \<open>The stable properties used below.\<close>

lemma stable_caches: "stable (\<lambda>s'. folder_cache s' = fc \<and> message_cache s' = mc)"
  by (simp add: stable_def)

lemma stable_credentials:
  "stable (\<lambda>s'. domain s' = d \<and> username s' = u \<and> password s' = p)"
  by (simp add: stable_def)

lemma stable_session: "stable (\<lambda>s'. is_logged_in s' \<longrightarrow> (\<exists>h. h \<noteq> [] \<and> base_href s' = Some h))"
  by (simp add: stable_def)

lemma stable_calls: "stable (\<lambda>s'. prefix cs (calls (browser s')))"
  by (auto simp: stable_def)

section \<open>Logging in and the session fields\<close>

lemma and_then_cases:
  "and_then m f s = (r, s') \<Longrightarrow>
   (\<And>e. m s = (Inl e, s') \<Longrightarrow> r = Inl e \<Longrightarrow> R) \<Longrightarrow>
   (\<And>x s1. m s = (Inr x, s1) \<Longrightarrow> f x s1 = (r, s') \<Longrightarrow> R) \<Longrightarrow> R"
  by (auto simp: and_then_def split: prod.splits sum.splits)

lemma browser_call_state: "browser_call c s = (r, s') \<Longrightarrow> \<exists>b. s' = s\<lparr>browser := b\<rparr>"
  by (auto simp: browser_call_def split: prod.splits)

lemma browser_load_state: "browser_load c s = (r, s') \<Longrightarrow> \<exists>b. s' = s\<lparr>browser := b\<rparr>"
  by (auto simp: browser_load_def split: prod.splits)

lemma read_body_state: "read_body s = (r, s') \<Longrightarrow> s' = s"
  by (auto simp: read_body_def split: option.splits)

lemma current_links_state: "current_links s = (r, s') \<Longrightarrow> s' = s"
  by (auto simp: current_links_def)

text \<open>\<^verbatim>\<open>login\<close> either raises and changes the browser only, or returns \<^verbatim>\<open>None\<close> having
  assigned a non-empty \<^verbatim>\<open>base_href\<close> and then \<^verbatim>\<open>is_logged_in\<close>.\<close>

lemma login_state:
  assumes "login lib s = (r, s')"
  shows "(\<exists>b e. s' = s\<lparr>browser := b\<rparr> \<and> r = Inl e) \<or>
     (\<exists>b h. h \<noteq> [] \<and> s' = s\<lparr>browser := b, base_href := Some h, is_logged_in := True\<rparr> \<and>
        r = Inr PNone)"
  using assms unfolding login_def Let_def
  apply (auto elim!: and_then_cases
      dest!: browser_call_state browser_load_state read_body_state current_links_state
      simp: raise_def truthy_name_Some split: if_splits list.splits option.splits)
     apply blast+
  done

lemma login_raises_keeps_session:
  assumes "fst (login lib s) = Inl e"
  shows "is_logged_in (snd (login lib s)) = is_logged_in s \<and>
         base_href (snd (login lib s)) = base_href s"
proof -
  obtain r s' where l: "login lib s = (r, s')" by (cases "login lib s")
  from login_state [OF l] assms l show ?thesis by auto
qed

lemma login_returns_sets_session:
  assumes "fst (login lib s) = Inr v"
  shows "is_logged_in (snd (login lib s)) \<and>
         (\<exists>h. h \<noteq> [] \<and> base_href (snd (login lib s)) = Some h)"
proof -
  obtain r s' where l: "login lib s = (r, s')" by (cases "login lib s")
  from login_state [OF l] assms l show ?thesis by auto
qed

text \<open>An operation that needs the session starts with the first call of \<^verbatim>\<open>login\<close> when
  the scraper is not logged in.\<close>

lemma browser_call_calls: "calls (browser (snd (browser_call c s))) = calls (browser s) @ [c]"
  using br_call_calls [of c "browser s"]
  by (cases "br_call c (browser s)") (simp add: browser_call_def)

lemma login_first_call:
  "prefix (calls (browser s) @
             [AddPassword (urljoin lib (domain s) ''exchange/'') (username s) (password s)])
     (calls (browser (snd (login lib s))))"
  by (rule login_establishes [OF stable_calls]) (simp add: browser_call_calls)

lemma ensure_logged_in_first_call:
  "\<not> is_logged_in s \<Longrightarrow>
   prefix (calls (browser s) @
             [AddPassword (urljoin lib (domain s) ''exchange/'') (username s) (password s)])
     (calls (browser (snd (ensure_logged_in lib s))))"
  by (rule ensure_logged_in_establishes [OF stable_calls]) (simp_all add: login_first_call)

lemma delete_message_first_call:
  "\<not> is_logged_in s \<Longrightarrow>
   prefix (calls (browser s) @
             [AddPassword (urljoin lib (domain s) ''exchange/'') (username s) (password s)])
     (calls (browser (snd (delete_message lib msgid s))))"
  by (rule delete_message_establishes [OF stable_calls]) (rule ensure_logged_in_first_call)

lemma get_folder_first_call:
  assumes "\<not> is_logged_in s" and "get_folder lib folder_name True s = Some (r, s')"
  shows "prefix (calls (browser s) @
             [AddPassword (urljoin lib (domain s) ''exchange/'') (username s) (password s)])
     (calls (browser s'))"
  by (rule get_folder_establishes [OF stable_calls _ assms(2)])
     (rule first_page_establishes [OF stable_calls ensure_logged_in_first_call [OF assms(1)]])

text \<open>When \<^verbatim>\<open>login\<close> raises in an operation that calls it, the operation raises the same
  exception and leaves the state that \<^verbatim>\<open>login\<close> left.\<close>

lemma get_folder_login_raises:
  assumes "\<not> is_logged_in s" and "fst (login lib s) = Inl e"
  shows "get_folder lib folder_name True s = Some (Inl e, snd (login lib s))"
  using assms
  by (cases "login lib s")
     (simp add: get_folder_def cached_folder_result first_page_def ensure_logged_in_def
        and_then_def)

lemma delete_message_login_raises:
  assumes "\<not> is_logged_in s" and "fst (login lib s) = Inl e"
  shows "delete_message lib msgid s = (Inl e, snd (login lib s))"
  using assms
  by (cases "login lib s")
     (simp add: delete_message_def ensure_logged_in_def and_then_def)

lemma first_page_first_call:
  "\<not> is_logged_in s \<Longrightarrow>
   prefix (calls (browser s) @
             [AddPassword (urljoin lib (domain s) ''exchange/'') (username s) (password s)])
     (calls (browser (snd (first_page lib folder_name s))))"
  by (rule first_page_establishes [OF stable_calls ensure_logged_in_first_call])

text \<open>
  A rejected login. When none of the six browser calls of \<^verbatim>\<open>login\<close> raises and the page
  loaded by the submission contains the failure text, \<^verbatim>\<open>login\<close> raises \<^verbatim>\<open>InvalidLogin\<close>;
  \<^verbatim>\<open>is_logged_in\<close>, \<^verbatim>\<open>base_href\<close> and both caches are what they were, and the browser has
  made exactly those six calls. If the scraper was logged out, a following
  \<^verbatim>\<open>delete_message\<close>, and the first page of a following
  \<^verbatim>\<open>get_folder(..., refresh=True)\<close>, begin with the first call of \<^verbatim>\<open>login\<close>; and if that
  second login raises, \<^verbatim>\<open>get_folder\<close> raises the same exception.
\<close>

lemma login_rejected:
  assumes ok: "\<forall>n\<in>{1..6}. raises (browser s) (calls (browser s) @ take n (login_calls lib s)) = None"
    and marker: "contains ''You could not be logged on to Outlook Web Access''
        (response_body (serves (browser s) (calls (browser s) @ login_calls lib s)))"
  shows "fst (login lib s) = Inl InvalidLogin \<and>
         is_logged_in (snd (login lib s)) = is_logged_in s \<and>
         base_href (snd (login lib s)) = base_href s \<and>
         folder_cache (snd (login lib s)) = folder_cache s \<and>
         message_cache (snd (login lib s)) = message_cache s \<and>
         calls (browser (snd (login lib s))) = calls (browser s) @ login_calls lib s \<and>
         (\<not> is_logged_in s \<longrightarrow>
            (\<forall>msgid. prefix
               (calls (browser s) @ login_calls lib s @
                  [AddPassword (urljoin lib (domain s) ''exchange/'') (username s) (password s)])
               (calls (browser (snd (delete_message lib msgid (snd (login lib s))))))) \<and>
            (\<forall>folder_name. prefix
               (calls (browser s) @ login_calls lib s @
                  [AddPassword (urljoin lib (domain s) ''exchange/'') (username s) (password s)])
               (calls (browser (snd (first_page lib folder_name (snd (login lib s))))))) \<and>
            (\<forall>folder_name e.
               fst (login lib (snd (login lib s))) = Inl e \<longrightarrow>
               get_folder lib folder_name True (snd (login lib s)) =
                 Some (Inl e, snd (login lib (snd (login lib s))))) \<and>
            (\<forall>folder_name r s'.
               get_folder lib folder_name True (snd (login lib s)) = Some (r, s') \<longrightarrow>
               prefix
                 (calls (browser s) @ login_calls lib s @
                    [AddPassword (urljoin lib (domain s) ''exchange/'') (username s) (password s)])
                 (calls (browser s'))))"
proof -
  let ?b = "browser s"
  let ?cs = "calls ?b @ login_calls lib s"
  let ?s1 = "s\<lparr>browser := ?b\<lparr>calls := ?cs, page := Some (serves ?b ?cs)\<rparr>\<rparr>"
  have n: "raises ?b (calls ?b @ take 1 (login_calls lib s)) = None"
    "raises ?b (calls ?b @ take 2 (login_calls lib s)) = None"
    "raises ?b (calls ?b @ take 3 (login_calls lib s)) = None"
    "raises ?b (calls ?b @ take 4 (login_calls lib s)) = None"
    "raises ?b (calls ?b @ take 5 (login_calls lib s)) = None"
    "raises ?b (calls ?b @ take 6 (login_calls lib s)) = None"
    using ok by simp_all
  have run: "login lib s = (Inl InvalidLogin, ?s1)"
    using n marker
    by (simp add: login_def login_calls_def Let_def and_then_def browser_call_def browser_load_def
        br_call_def br_load_def read_body_def raise_def)
  have del: "prefix
       (?cs @ [AddPassword (urljoin lib (domain s) ''exchange/'') (username s) (password s)])
       (calls (browser (snd (delete_message lib msgid ?s1))))" if "\<not> is_logged_in s" for msgid
    using delete_message_first_call [of ?s1 lib msgid] that by simp
  have get: "prefix
       (?cs @ [AddPassword (urljoin lib (domain s) ''exchange/'') (username s) (password s)])
       (calls (browser s'))"
    if "\<not> is_logged_in s" and "get_folder lib folder_name True ?s1 = Some (r, s')"
    for folder_name r s'
    using get_folder_first_call [of ?s1 lib folder_name r s'] that by simp
  have page: "prefix
       (?cs @ [AddPassword (urljoin lib (domain s) ''exchange/'') (username s) (password s)])
       (calls (browser (snd (first_page lib folder_name ?s1))))"
    if "\<not> is_logged_in s" for folder_name
    using first_page_first_call [of ?s1 lib folder_name] that by simp
  have again: "get_folder lib folder_name True ?s1 = Some (Inl e, snd (login lib ?s1))"
    if "\<not> is_logged_in s" and "fst (login lib ?s1) = Inl e" for folder_name e
    using get_folder_login_raises [of ?s1 lib e folder_name] that by simp
  show ?thesis
    using del get page again by (simp add: run)
qed

lemma login_rejected_example:
  "fst (login stub_lib rejected_scraper) = Inl InvalidLogin \<and>
   \<not> is_logged_in (snd (login stub_lib rejected_scraper)) \<and>
   base_href (snd (login stub_lib rejected_scraper)) = None \<and>
   prefix
     (login_calls stub_lib rejected_scraper @
        [AddPassword ''http://owa/exchange/'' ''user'' ''wrong''])
     (calls (browser (snd (delete_message stub_lib ''/Inbox/a.EML''
         (snd (login stub_lib rejected_scraper))))))"
proof -
  have ok: "\<forall>n\<in>{1..6}. raises (browser rejected_scraper)
      (calls (browser rejected_scraper) @ take n (login_calls stub_lib rejected_scraper)) = None"
    by (simp add: rejected_scraper_def rejecting_browser_def init_def)
  have marker: "contains ''You could not be logged on to Outlook Web Access''
        (response_body (serves (browser rejected_scraper)
           (calls (browser rejected_scraper) @ login_calls stub_lib rejected_scraper)))"
    by (simp add: rejected_scraper_def rejecting_browser_def init_def)
  have init: "\<not> is_logged_in rejected_scraper" "base_href rejected_scraper = None"
    "calls (browser rejected_scraper) = []" "domain rejected_scraper = ''http://owa''"
    "username rejected_scraper = ''user''" "password rejected_scraper = ''wrong''"
    by (simp_all add: rejected_scraper_def rejecting_browser_def init_def)
  from login_rejected [OF ok marker] init show ?thesis
    by (simp add: stub_lib_def)
qed

section \<open>The pagination loop\<close>

lemma iterates_paginate:
  assumes "iterates base st st'"
  shows "paginate (fst st) base (fst (snd st)) (snd (snd st)) =
         paginate (fst st') base (fst (snd st')) (snd (snd st'))"
  using assms
proof (induction rule: iterates.induct)
  case (iterates_start st)
  show ?case by simp
next
  case (iterates_step st b last_message_urls message_urls murls b')
  have "paginate b base last_message_urls message_urls =
        paginate b' base murls (message_urls @ murls)"
    using iterates_step(2,3) by (subst paginate.simps) (simp add: Let_def)
  with iterates_step.IH show ?case by simp
qed

lemma next_page_no_link:
  "br_links b = Inr ls \<Longrightarrow> next_page_urls ls = Inr [] \<Longrightarrow>
   next_page b base = (Inl IndexError, b)"
  by (simp add: next_page_def)

lemma paginate_no_link:
  assumes "br_links b = Inr ls" and "next_page_urls ls = Inr []"
  shows "paginate b base last_message_urls message_urls = Some (Inl IndexError, b)"
  using next_page_no_link [OF assms, of base] by (subst paginate.simps) simp

section \<open>The claims\<close>

text \<open>
  Claim C1 (pages P1, P2, P3 and P3 again give the concatenation P1+P2+P3, the repeated
  page is discarded, three next-page requests). On the three-page \<^verbatim>\<open>Inbox\<close> of the
  scripted server, \<^verbatim>\<open>get_folder('Inbox')\<close> on a fresh scraper raises \<^verbatim>\<open>NameError\<close> at
  line 182. \<^verbatim>\<open>get_folder('Inbox', refresh=True)\<close> logs in, opens the listing and makes
  the three next-page requests, but it does not return: line 205 raises \<^verbatim>\<open>NameError\<close>.
  The list the loop has built by then holds the repeated page (\<^verbatim>\<open>c.EML\<close> twice), since
  line 204 runs in the iteration that detects the repeat.
\<close>

theorem get_folder_paged_example:
  "get_folder stub_lib ''Inbox'' False owa_scraper =
     Some (Inl (NameError ''find_in_cache''), owa_scraper) \<and>
   map_option fst (get_folder stub_lib ''Inbox'' True owa_scraper) =
     Some (Inl (NameError ''add_to_cache'')) \<and>
   map_option (\<lambda>(r, s). calls (browser s)) (get_folder stub_lib ''Inbox'' True owa_scraper) =
     Some (login_calls stub_lib owa_scraper @
           [Open ''http://owa/exchange/u/Inbox/?Cmd=contents'' None,
            Open ''p2'' None, Open ''p3'' None, Open ''p4'' None]) \<and>
   map_option fst
     (paginate (browser (snd (first_page stub_lib ''Inbox'' owa_scraper)))
        (Some ''http://owa/exchange/u/'') [''/Inbox/a.EML''] [''/Inbox/a.EML'']) =
     Some (Inr [''/Inbox/a.EML'', ''/Inbox/b.EML'', ''/Inbox/c.EML'', ''/Inbox/c.EML''])"
  by (simp add: run_defs owa_defs paginate.simps)

text \<open>
  Claim C2 (\<^verbatim>\<open>delete_message\<close> removes the id from the message cache and invalidates
  every cached folder listing that contains it). It does neither: with the id's payload
  and a listing of \<^verbatim>\<open>Inbox\<close> that contains the id cached, \<^verbatim>\<open>delete_message\<close> posts the
  request and raises \<^verbatim>\<open>NameError\<close> at line 234, and both entries are still cached.
\<close>

theorem delete_message_cached_example:
  "fst (delete_message stub_lib ''/Inbox/a.EML'' cached_scraper) =
     Inl (NameError ''remove_from_cache'') \<and>
   message_cache (snd (delete_message stub_lib ''/Inbox/a.EML'' cached_scraper)) ''/Inbox/a.EML'' =
     Some (PStr ''raw mail'') \<and>
   folder_cache (snd (delete_message stub_lib ''/Inbox/a.EML'' cached_scraper)) ''Inbox'' =
     Some (PList [''/Inbox/a.EML''])"
  by (simp add: delete_message_def run_defs owa_defs)

text \<open>
  Claim C2, amended: \<^verbatim>\<open>delete_message\<close> never writes the folder cache. Whatever the id,
  the state and the server's answers, every cached folder listing is after the call what
  it was before, those that contain the id included: \<^verbatim>\<open>remove_from_cache\<close> is called with
  the id alone, and no code looks for the folders that list an id.
\<close>

theorem delete_message_keeps_folder_cache:
  "folder_cache (snd (delete_message lib msgid s)) = folder_cache s"
  using stable_delete_message
    [OF stable_caches [of "folder_cache s" "message_cache s"], of s lib msgid]
  by simp

text \<open>
  Claim C3 (after a fetch, \<^verbatim>\<open>get_folder(name, refresh=false)\<close> returns the cached
  sequence and makes no request). With a listing of \<^verbatim>\<open>Inbox\<close> in the folder cache,
  \<^verbatim>\<open>get_folder('Inbox')\<close> does not return it: it raises \<^verbatim>\<open>NameError\<close> at line 182 and
  leaves the state as it was.
\<close>

theorem get_folder_cached_listing_raises:
  "find_in_cache cached_scraper (Some ''Inbox'') None = PList [''/Inbox/a.EML''] \<and>
   get_folder stub_lib ''Inbox'' False cached_scraper =
     Some (Inl (NameError ''find_in_cache''), cached_scraper)"
  by (simp add: get_folder_without_refresh find_in_cache_def owa_defs)

text \<open>
  Claim C4 (a first page that reports one page is returned as it is, with no next-page
  request). On the one-page folder \<^verbatim>\<open>Sent\<close>, \<^verbatim>\<open>get_folder('Sent', refresh=True)\<close> logs in
  and opens the listing only, and then raises \<^verbatim>\<open>NameError\<close> at line 192 instead of
  returning the page's ids; without \<^verbatim>\<open>refresh\<close> it raises at line 182.
\<close>

theorem get_folder_single_page_example:
  "map_option fst (get_folder stub_lib ''Sent'' True owa_scraper) =
     Some (Inl (NameError ''add_to_cache'')) \<and>
   map_option (\<lambda>(r, s). calls (browser s)) (get_folder stub_lib ''Sent'' True owa_scraper) =
     Some (login_calls stub_lib owa_scraper @
           [Open ''http://owa/exchange/u/Sent/?Cmd=contents'' None]) \<and>
   get_folder stub_lib ''Sent'' False owa_scraper =
     Some (Inl (NameError ''find_in_cache''), owa_scraper)"
  by (simp add: run_defs owa_defs)

text \<open>
  Claim C5 (a post-login page with the failure text makes \<^verbatim>\<open>login\<close> raise
  \<^verbatim>\<open>InvalidLogin\<close> and leaves the scraper logged out, so that a subsequent operation
  logs in again). On the server that rejects the credentials, \<^verbatim>\<open>login\<close> raises
  \<^verbatim>\<open>InvalidLogin\<close> after its six browser calls and the scraper stays logged out. A
  following \<^verbatim>\<open>delete_message\<close> logs in again (six more calls, \<^verbatim>\<open>InvalidLogin\<close> again). A
  following \<^verbatim>\<open>get_message\<close>, \<^verbatim>\<open>get_folder('Inbox')\<close> or \<^verbatim>\<open>inbox()\<close> does not: each
  raises \<^verbatim>\<open>NameError\<close> at line 211 or 182, before the login check of line 214 or 186,
  and makes no browser call.
\<close>

theorem rejected_login_then_get_message:
  "fst (login stub_lib rejected_scraper) = Inl InvalidLogin \<and>
   \<not> is_logged_in (snd (login stub_lib rejected_scraper)) \<and>
   calls (browser (snd (login stub_lib rejected_scraper))) =
     login_calls stub_lib rejected_scraper \<and>
   get_message stub_lib ''/Inbox/a.EML'' (snd (login stub_lib rejected_scraper)) =
     (Inl (NameError ''find_in_cache''), snd (login stub_lib rejected_scraper)) \<and>
   get_folder stub_lib ''Inbox'' False (snd (login stub_lib rejected_scraper)) =
     Some (Inl (NameError ''find_in_cache''), snd (login stub_lib rejected_scraper)) \<and>
   inbox stub_lib False (snd (login stub_lib rejected_scraper)) =
     Some (Inl (NameError ''find_in_cache''), snd (login stub_lib rejected_scraper)) \<and>
   fst (delete_message stub_lib ''/Inbox/a.EML'' (snd (login stub_lib rejected_scraper))) =
     Inl InvalidLogin \<and>
   calls (browser (snd (delete_message stub_lib ''/Inbox/a.EML''
       (snd (login stub_lib rejected_scraper))))) =
     login_calls stub_lib rejected_scraper @ login_calls stub_lib rejected_scraper"
  by (simp add: get_message_raises get_folder_without_refresh inbox_def delete_message_def
      run_defs stub_lib_def owa_link_def rejected_scraper_def rejecting_browser_def init_def
      login_calls_def)

text \<open>
  Claim C6 (\<^verbatim>\<open>remove_from_cache\<close> with a folder name removes the folder's entry and the
  messages it lists, and returns whether the folder was cached). With \<^verbatim>\<open>Inbox\<close> cached,
  \<^verbatim>\<open>remove_from_cache(folder_name='Inbox')\<close> raises \<^verbatim>\<open>NameError\<close> at line 129 and removes
  nothing.
\<close>

theorem remove_from_cache_folder_raises:
  "folder_cache cached_scraper ''Inbox'' = Some (PList [''/Inbox/a.EML'']) \<and>
   remove_from_cache (Some ''Inbox'') None cached_scraper =
     (Inl (NameError ''find_in_cache''), cached_scraper)"
  by (simp add: remove_from_cache_folder_name owa_defs)

text \<open>
  Claim C7 (a missing next-page link makes \<^verbatim>\<open>get_folder\<close> fail with \<^verbatim>\<open>RetrievalError\<close>
  and leaves the folder un-cached). On \<^verbatim>\<open>Drafts\<close>, whose second page has no
  \<^verbatim>\<open>Next Page\<close> link, \<^verbatim>\<open>get_folder('Drafts', refresh=True)\<close> opens the listing and the
  second page and raises \<^verbatim>\<open>IndexError\<close>, the exception of \<^verbatim>\<open>[...][0]\<close> at line 198.
\<close>

theorem drafts_second_page_raises_IndexError:
  "map_option fst (get_folder stub_lib ''Drafts'' True owa_scraper) = Some (Inl IndexError) \<and>
   map_option (\<lambda>(r, s). calls (browser s)) (get_folder stub_lib ''Drafts'' True owa_scraper) =
     Some (login_calls stub_lib owa_scraper @
           [Open ''http://owa/exchange/u/Drafts/?Cmd=contents'' None, Open ''d2'' None])"
  by (simp add: run_defs owa_defs paginate.simps)

text \<open>
  Claim C7, amended: if \<^verbatim>\<open>get_folder(name, refresh=True)\<close> has loaded a first page that
  does not report a single page, and the loop comes to an iteration whose page has no
  \<^verbatim>\<open>Next Page\<close> link, then \<^verbatim>\<open>get_folder\<close> raises \<^verbatim>\<open>IndexError\<close> (no
  \<^verbatim>\<open>RetrievalError\<close> is raised), and the folder cache and the message cache are what they
  were before the call.
\<close>

theorem get_folder_missing_next_link:
  assumes first: "first_page lib folder_name s = (Inr (message_urls, body), s2)"
    and more: "\<not> contains ''&nbsp;of&nbsp;1'' body"
    and loop: "iterates (base_href s2) (browser s2, message_urls, message_urls)
                 (b, last_message_urls, message_urls')"
    and links: "br_links b = Inr ls"
    and absent: "next_page_urls ls = Inr []"
  shows "get_folder lib folder_name True s = Some (Inl IndexError, s2\<lparr>browser := b\<rparr>) \<and>
         folder_cache (s2\<lparr>browser := b\<rparr>) = folder_cache s \<and>
         message_cache (s2\<lparr>browser := b\<rparr>) = message_cache s"
proof -
  have "paginate (browser s2) (base_href s2) message_urls message_urls =
        paginate b (base_href s2) last_message_urls message_urls'"
    using iterates_paginate [OF loop] by simp
  also have "\<dots> = Some (Inl IndexError, b)"
    by (rule paginate_no_link [OF links absent])
  finally have "get_folder lib folder_name True s = Some (Inl IndexError, s2\<lparr>browser := b\<rparr>)"
    using first more by (simp add: get_folder_def cached_folder_result)
  moreover have "folder_cache s2 = folder_cache s \<and> message_cache s2 = message_cache s"
    using stable_first_page
      [OF stable_caches [of "folder_cache s" "message_cache s"], of s lib folder_name] first
    by simp
  ultimately show ?thesis by simp
qed

theorem get_folder_missing_next_link_witness:
  "get_folder stub_lib ''Drafts'' True owa_scraper =
     Some (Inl IndexError,
           (snd (first_page stub_lib ''Drafts'' owa_scraper))
             \<lparr>browser := snd (next_page (browser (snd (first_page stub_lib ''Drafts'' owa_scraper)))
                                (Some ''http://owa/exchange/u/''))\<rparr>) \<and>
   folder_cache
     ((snd (first_page stub_lib ''Drafts'' owa_scraper))
        \<lparr>browser := snd (next_page (browser (snd (first_page stub_lib ''Drafts'' owa_scraper)))
                           (Some ''http://owa/exchange/u/''))\<rparr>) = folder_cache owa_scraper \<and>
   message_cache
     ((snd (first_page stub_lib ''Drafts'' owa_scraper))
        \<lparr>browser := snd (next_page (browser (snd (first_page stub_lib ''Drafts'' owa_scraper)))
                           (Some ''http://owa/exchange/u/''))\<rparr>) = message_cache owa_scraper"
proof -
  let ?s2 = "snd (first_page stub_lib ''Drafts'' owa_scraper)"
  let ?b = "snd (next_page (browser ?s2) (Some ''http://owa/exchange/u/''))"
  let ?e = "owa_link ''/Drafts/e.EML'' ''e''"
  have first: "first_page stub_lib ''Drafts'' owa_scraper =
      (Inr ([''/Drafts/d.EML''], ''1&nbsp;of&nbsp;2''), ?s2)"
    by (simp add: run_defs owa_defs)
  have more: "\<not> contains ''&nbsp;of&nbsp;1'' ''1&nbsp;of&nbsp;2''"
    by simp
  have base: "base_href ?s2 = Some ''http://owa/exchange/u/''"
    by (simp add: run_defs owa_defs)
  have step: "next_page (browser ?s2) (Some ''http://owa/exchange/u/'') =
      (Inr [''/Drafts/e.EML''], ?b)"
    by (simp add: run_defs owa_defs)
  have "iterates (Some ''http://owa/exchange/u/'')
      (browser ?s2, [''/Drafts/d.EML''], [''/Drafts/d.EML''])
      (?b, [''/Drafts/e.EML''], [''/Drafts/d.EML''] @ [''/Drafts/e.EML''])"
    by (rule iterates_step [OF iterates_start step]) simp
  then have loop: "iterates (base_href ?s2)
      (browser ?s2, [''/Drafts/d.EML''], [''/Drafts/d.EML''])
      (?b, [''/Drafts/e.EML''], [''/Drafts/d.EML'', ''/Drafts/e.EML''])"
    by (simp add: base)
  have links: "br_links ?b = Inr [?e]"
    by (simp add: run_defs owa_defs)
  have absent: "next_page_urls [?e] = Inr []"
    by (simp add: owa_link_def)
  from get_folder_missing_next_link [OF first more loop links absent]
  show ?thesis .
qed




text \<open>
  Claim C9 (in every reachable state, \<^verbatim>\<open>is_logged_in\<close> implies that \<^verbatim>\<open>base_href\<close> is set).
  In every state that the constructor and the public methods can produce, a scraper
  that is logged in has a \<^verbatim>\<open>base_href\<close>, and it is a non-empty string.
\<close>

theorem logged_in_has_base_href:
  assumes "reachable lib s"
  shows "is_logged_in s \<longrightarrow> (\<exists>h. h \<noteq> [] \<and> base_href s = Some h)"
  using assms
proof (induction rule: reachable.induct)
  case (reach_init b d u p)
  show ?case by (simp add: init_def)
next
  case (reach_add_to_cache s folder_name message_urls msgid payload r s')
  then show ?case by (auto simp: add_to_cache_def split: option.splits)
next
  case (reach_remove_from_cache s folder_name msgid r s')
  then show ?case using snd_remove_from_cache [of folder_name msgid s] by simp
next
  case (reach_flush_cache s r s')
  then show ?case by (auto simp: flush_cache_def)
next
  case (reach_login s r s')
  then show ?case using stable_login [OF stable_session, of s lib] by simp
next
  case (reach_inbox s refresh r s')
  then show ?case using stable_inbox [OF stable_session, of s lib refresh r s'] by simp
next
  case (reach_get_folder s folder_name refresh r s')
  then show ?case
    using stable_get_folder [OF stable_session, of s lib folder_name refresh r s'] by simp
next
  case (reach_get_message s msgid' r s')
  then show ?case using snd_get_message [of lib msgid' s] by simp
next
  case (reach_delete_message s msgid' r s')
  then show ?case using stable_delete_message [OF stable_session, of s lib msgid'] by simp
qed

theorem logged_in_has_base_href_witness:
  "reachable stub_lib (snd (login stub_lib owa_scraper)) \<and>
   is_logged_in (snd (login stub_lib owa_scraper)) \<and>
   (\<exists>h. h \<noteq> [] \<and> base_href (snd (login stub_lib owa_scraper)) = Some h)"
proof -
  have r: "reachable stub_lib (snd (login stub_lib owa_scraper))"
    unfolding owa_scraper_def
    by (rule reach_login [OF reach_init, of _ _ _ _ _
          "fst (login stub_lib (init owa_browser ''http://owa'' ''user'' ''secret''))"]) simp
  have l: "is_logged_in (snd (login stub_lib owa_scraper))"
    by (simp add: run_defs owa_defs)
  from logged_in_has_base_href [OF r] l r show ?thesis by simp
qed

text \<open>
  Claim C10 (a message whose payload is cached is returned by \<^verbatim>\<open>get_message\<close> without a
  login or a request). With a payload cached under the id, \<^verbatim>\<open>get_message\<close> raises
  \<^verbatim>\<open>NameError\<close> at line 211; the state is left as it was, and no request is made.
\<close>

theorem get_message_cached_payload_raises:
  "find_in_cache cached_scraper None (Some ''/Inbox/a.EML'') = PStr ''raw mail'' \<and>
   get_message stub_lib ''/Inbox/a.EML'' cached_scraper =
     (Inl (NameError ''find_in_cache''), cached_scraper)"
  by (simp add: get_message_raises find_in_cache_def owa_defs)

end
